theory Spec2Isabelle
  imports Complex_Main "HOL-Library.AList"
begin

section \<open>Values of the script\<close>

text \<open>
  The script \<^verbatim>\<open>real_time_data_analysis.py\<close> polls a ticker, prints statistics of the
  buy prices and keeps a short history of them per currency. This theory embeds its three
  functions and the module-level code.

  Exceptions are values: a function that can raise returns \<open>py_error + 'a\<close>, a function
  that mutates a dictionary before it raises returns the dictionary beside the exception.
\<close>

datatype py_error =
    KeyError | TypeError | ValueError | AttributeError | OverflowError
  | JSONDecodeError | ConnectionError

text \<open>
  A Python float, as the number it denotes (or an infinity, or \<^verbatim>\<open>nan\<close>). The model never
  computes with floats: it passes them on, from the parsed body and from numpy to the
  printed lines and to the History.
\<close>

datatype float64 = Finite real | PosInf | NegInf | NaN

text \<open>
  What \<^verbatim>\<open>response.json()\<close> can return for a ticker. A JSON number without fraction or
  exponent is a Python \<^verbatim>\<open>int\<close> (unbounded), any other number a \<^verbatim>\<open>float\<close>. An object is a
  Python \<^verbatim>\<open>dict\<close>, kept as an association list in insertion order (the order \<^verbatim>\<open>items()\<close>
  and \<^verbatim>\<open>values()\<close> iterate in). JSON arrays are left out: the ticker has none.
\<close>

datatype json_value =
    JNull
  | JBool bool
  | JInt int
  | JFloat float64
  | JStr string
  | JObj "(string \<times> json_value) list"

text \<open>\<^verbatim>\<open>d.values()\<close> and \<^verbatim>\<open>d.items()\<close>: only a \<^verbatim>\<open>dict\<close> has them.\<close>

fun py_values :: "json_value \<Rightarrow> py_error + json_value list" where
  "py_values (JObj kvs) = Inr (map snd kvs)"
| "py_values _ = Inl AttributeError"

fun py_items :: "json_value \<Rightarrow> py_error + (string \<times> json_value) list" where
  "py_items (JObj kvs) = Inr kvs"
| "py_items _ = Inl AttributeError"

text \<open>
  \<^verbatim>\<open>details['buy']\<close>: a missing key of a \<^verbatim>\<open>dict\<close> raises \<^verbatim>\<open>KeyError\<close>; a string, a number,
  a bool or \<^verbatim>\<open>None\<close> subscripted with a string raises \<^verbatim>\<open>TypeError\<close>.
\<close>

fun subscript :: "json_value \<Rightarrow> string \<Rightarrow> py_error + json_value" where
  "subscript (JObj kvs) k = (case map_of kvs k of None \<Rightarrow> Inl KeyError | Some v \<Rightarrow> Inr v)"
| "subscript _ k = Inl TypeError"

section \<open>The numpy functions the script calls\<close>

text \<open>
  \<^verbatim>\<open>np.mean\<close>, \<^verbatim>\<open>np.median\<close> and \<^verbatim>\<open>np.std\<close> are library code, not code of the script, and
  they compute in floating point. What each of them does with a Python list (the float it
  returns, or the exception it raises) is a parameter of the model. The script calls them
  with the list alone, so with their default arguments.
\<close>

record numpy =
  np_mean :: "json_value list \<Rightarrow> py_error + float64"
  np_median :: "json_value list \<Rightarrow> py_error + float64"
  np_std :: "json_value list \<Rightarrow> py_error + float64"

section \<open>Console output\<close>

text \<open>
  A printed line is kept as the values it shows; the rendering of a float as text is not
  modelled.
\<close>

datatype line =
    Dashes
  | New_data_received json_value
  | Mean_Buy_Price float64
  | Median_Buy_Price float64
  | Standard_Deviation float64
  | Trend string "json_value list"
  | Error_fetching_data int

section \<open>\<^verbatim>\<open>calculate_statistics\<close>\<close>

text \<open>The comprehension \<^verbatim>\<open>[details['buy'] for details in real_time_data.values()]\<close>.\<close>

fun buy_prices_of :: "json_value list \<Rightarrow> py_error + json_value list" where
  "buy_prices_of [] = Inr []"
| "buy_prices_of (details # rest) =
     (case subscript details ''buy'' of
        Inl e \<Rightarrow> Inl e
      | Inr b \<Rightarrow> (case buy_prices_of rest of Inl e \<Rightarrow> Inl e | Inr bs \<Rightarrow> Inr (b # bs)))"

definition calculate_statistics :: "numpy \<Rightarrow> json_value \<Rightarrow> py_error + line list" where
  "calculate_statistics np real_time_data =
     (case py_values real_time_data of Inl e \<Rightarrow> Inl e | Inr ds \<Rightarrow>
     (case buy_prices_of ds of Inl e \<Rightarrow> Inl e | Inr buy_prices \<Rightarrow>
     (case np_mean np buy_prices of Inl e \<Rightarrow> Inl e | Inr mean_price \<Rightarrow>
     (case np_median np buy_prices of Inl e \<Rightarrow> Inl e | Inr median_price \<Rightarrow>
     (case np_std np buy_prices of Inl e \<Rightarrow> Inl e | Inr std_dev_price \<Rightarrow>
        Inr [Mean_Buy_Price mean_price, Median_Buy_Price median_price,
             Standard_Deviation std_dev_price])))))"

section \<open>\<^verbatim>\<open>track_price_changes\<close>\<close>

text \<open>
  The history dictionary: currency to list of prices, in insertion order.
  \<open>AList.update\<close> is the assignment \<^verbatim>\<open>d[k] = v\<close>: it replaces the value of a key that is
  there and adds a new key at the end.
\<close>

type_synonym history = "(string \<times> json_value list) list"

text \<open>
  The first loop. A new currency gets the empty list before \<^verbatim>\<open>details['buy']\<close> is evaluated,
  so an exception there leaves the dictionary as changed so far.
\<close>

fun append_buys :: "(string \<times> json_value) list \<Rightarrow> history \<Rightarrow> py_error option \<times> history" where
  "append_buys [] prices_over_time = (None, prices_over_time)"
| "append_buys ((currency, details) # rest) prices_over_time =
     (case (case map_of prices_over_time currency of
              None \<Rightarrow> (AList.update currency [] prices_over_time, [])
            | Some ps \<Rightarrow> (prices_over_time, ps)) of
        (p1, ps) \<Rightarrow>
          (case subscript details ''buy'' of
             Inl e \<Rightarrow> (Some e, p1)
           | Inr b \<Rightarrow> append_buys rest (AList.update currency (ps @ [b]) p1)))"

text \<open>The slice \<^verbatim>\<open>xs[-n:]\<close> for a positive \<^verbatim>\<open>n\<close>: the last \<^verbatim>\<open>n\<close> elements, all of a shorter list.\<close>

definition slice_last :: "nat \<Rightarrow> 'a list \<Rightarrow> 'a list" where
  "slice_last n xs = drop (length xs - n) xs"

text \<open>The second loop: every key of the dictionary is assigned its own slice.\<close>

definition truncate_all :: "nat \<Rightarrow> history \<Rightarrow> history" where
  "truncate_all history_size prices_over_time =
     map (\<lambda>(currency, ps). (currency, slice_last history_size ps)) prices_over_time"

text \<open>
  The format \<^verbatim>\<open>f"{price:,.2f}"\<close> accepts a float (also an infinity and \<^verbatim>\<open>nan\<close>) and a bool.
  It converts an \<^verbatim>\<open>int\<close> to a float first, which raises \<^verbatim>\<open>OverflowError\<close> for an \<^verbatim>\<open>int\<close> that
  rounds beyond the largest float. A string raises \<^verbatim>\<open>ValueError\<close>, \<^verbatim>\<open>None\<close> and a \<^verbatim>\<open>dict\<close>
  raise \<^verbatim>\<open>TypeError\<close>.
\<close>

definition int_too_large_for_float :: "int \<Rightarrow> bool" where
  "int_too_large_for_float n = (2 ^ 1024 - 2 ^ 970 \<le> \<bar>n\<bar>)"

fun format_2f :: "json_value \<Rightarrow> py_error option" where
  "format_2f (JInt n) = (if int_too_large_for_float n then Some OverflowError else None)"
| "format_2f (JFloat x) = None"
| "format_2f (JBool b) = None"
| "format_2f (JStr s) = Some ValueError"
| "format_2f JNull = Some TypeError"
| "format_2f (JObj kvs) = Some TypeError"

fun format_all :: "json_value list \<Rightarrow> py_error option" where
  "format_all [] = None"
| "format_all (price # prices) =
     (case format_2f price of Some e \<Rightarrow> Some e | None \<Rightarrow> format_all prices)"

text \<open>The third loop prints one line per currency and stops at the first exception.\<close>

fun print_trends :: "history \<Rightarrow> line list \<times> py_error option" where
  "print_trends [] = ([], None)"
| "print_trends ((currency, prices) # rest) =
     (case format_all prices of
        Some e \<Rightarrow> ([], Some e)
      | None \<Rightarrow> (case print_trends rest of (ls, r) \<Rightarrow> (Trend currency prices # ls, r)))"

text \<open>
  The function returns the lines printed, the exception raised (if any) and the dictionary
  as the call leaves it.
\<close>

definition track_price_changes ::
    "json_value \<Rightarrow> history \<Rightarrow> line list \<times> py_error option \<times> history" where
  "track_price_changes real_time_data prices_over_time =
     (case py_items real_time_data of
        Inl e \<Rightarrow> ([], Some e, prices_over_time)
      | Inr its \<Rightarrow>
          (case append_buys its prices_over_time of
             (Some e, p1) \<Rightarrow> ([], Some e, p1)
           | (None, p1) \<Rightarrow>
               (let history_size = 5;
                    p2 = truncate_all history_size p1
                in case print_trends p2 of (ls, r) \<Rightarrow> (ls, r, p2))))"

definition history_after :: "line list \<times> py_error option \<times> history \<Rightarrow> history" where
  "history_after res = snd (snd res)"

section \<open>\<^verbatim>\<open>poll_api\<close> and the module\<close>

text \<open>
  What \<^verbatim>\<open>requests.get\<close> gives back: the status code and what \<^verbatim>\<open>response.json()\<close> does when it
  is called (the parsed body, or the exception of a body that is not JSON).
\<close>

record response =
  status_code :: int
  json :: "py_error + json_value"

text \<open>What the script does to the outside, in order.\<close>

datatype event = Get string | Print line | Sleep nat

text \<open>
  The script has two dictionaries named \<^verbatim>\<open>prices_over_time\<close>: the module's (line 29) and the
  one \<^verbatim>\<open>poll_api\<close> creates (line 53). \<^verbatim>\<open>track_price_changes\<close> mutates the object it is
  given, so the objects live in a store and a variable holds a reference.
\<close>

type_synonym store = "history list"

definition new_dict :: "store \<Rightarrow> nat \<times> store" where
  "new_dict st = (length st, st @ [[]])"

text \<open>
  One pass through the body of \<^verbatim>\<open>while True\<close>, given what \<^verbatim>\<open>requests.get\<close> does this time
  (it raises, or returns a response). There is no \<^verbatim>\<open>try\<close> in the script: an exception
  leaves the loop.
\<close>

definition poll_iteration ::
    "numpy \<Rightarrow> string \<Rightarrow> nat \<Rightarrow> py_error + response \<Rightarrow> store
       \<Rightarrow> event list \<times> py_error option \<times> store" where
  "poll_iteration np api_url prices_over_time got st =
     (case got of
        Inl e \<Rightarrow> ([Get api_url], Some e, st)
      | Inr response \<Rightarrow>
          if status_code response = 200 then
            (case json response of
               Inl e \<Rightarrow> ([Get api_url], Some e, st)
             | Inr real_time_data \<Rightarrow>
                 (let banner = [Get api_url, Print Dashes,
                                Print (New_data_received real_time_data), Print Dashes]
                  in case calculate_statistics np real_time_data of
                       Inl e \<Rightarrow> (banner, Some e, st)
                     | Inr stats \<Rightarrow>
                         (case track_price_changes real_time_data (st ! prices_over_time) of
                            (trends, r, h) \<Rightarrow>
                              (banner @ map Print stats @ map Print trends
                                 @ (case r of None \<Rightarrow> [Sleep 10] | Some e \<Rightarrow> []),
                               r, st[prices_over_time := h]))))
          else ([Get api_url, Print (Error_fetching_data (status_code response))], None, st))"

text \<open>
  The loop never ends by itself. It is run against the answers the network gives, one per
  pass; the result \<open>None\<close> says that the loop is still running when they are used up (it is
  about to call \<^verbatim>\<open>requests.get\<close> again), \<open>Some e\<close> that \<open>e\<close> left the loop.
\<close>

fun poll_loop ::
    "numpy \<Rightarrow> string \<Rightarrow> nat \<Rightarrow> (py_error + response) list \<Rightarrow> store
       \<Rightarrow> event list \<times> py_error option \<times> store" where
  "poll_loop np api_url prices_over_time [] st = ([], None, st)"
| "poll_loop np api_url prices_over_time (got # rest) st =
     (case poll_iteration np api_url prices_over_time got st of
        (evs, Some e, st1) \<Rightarrow> (evs, Some e, st1)
      | (evs, None, st1) \<Rightarrow>
          (case poll_loop np api_url prices_over_time rest st1 of
             (evs2, r, st2) \<Rightarrow> (evs @ evs2, r, st2)))"

definition poll_api ::
    "numpy \<Rightarrow> string \<Rightarrow> (py_error + response) list \<Rightarrow> store
       \<Rightarrow> event list \<times> py_error option \<times> store" where
  "poll_api np api_url world st =
     (case new_dict st of
        (prices_over_time, st1) \<Rightarrow> poll_loop np api_url prices_over_time world st1)"

definition real_time_api_url :: string where
  "real_time_api_url = ''https://blockchain.info/ticker''"

text \<open>
  The module: line 29 creates the module's dictionary, the first object of the store, and
  the last line calls \<^verbatim>\<open>poll_api\<close>.
\<close>

definition module_prices_over_time :: nat where
  "module_prices_over_time = fst (new_dict [])"

definition script ::
    "numpy \<Rightarrow> (py_error + response) list \<Rightarrow> event list \<times> py_error option \<times> store" where
  "script np world = poll_api np real_time_api_url world (snd (new_dict []))"

section \<open>The notions of the specification\<close>

text \<open>
  A Snapshot is a mapping from currency to a record that has a numeric \<^verbatim>\<open>buy\<close> field. As
  parsed dictionaries, a Snapshot and its records have each key once.
\<close>

fun is_record :: "json_value \<Rightarrow> bool" where
  "is_record (JObj fs) =
     (distinct (map fst fs) \<and>
      (case map_of fs ''buy'' of
         Some (JInt n) \<Rightarrow> True | Some (JFloat x) \<Rightarrow> True | _ \<Rightarrow> False))"
| "is_record _ = False"

fun is_snapshot :: "json_value \<Rightarrow> bool" where
  "is_snapshot (JObj kvs) = (distinct (map fst kvs) \<and> list_all is_record (map snd kvs))"
| "is_snapshot _ = False"

text \<open>Feeding Snapshots to \<^verbatim>\<open>track_price_changes\<close> in order, on one dictionary.\<close>

fun feed :: "json_value list \<Rightarrow> history \<Rightarrow> history" where
  "feed [] h = h"
| "feed (s # ss) h = feed ss (history_after (track_price_changes s h))"

text \<open>
  The buy value of a currency in a Snapshot, as a list of none or one; the buy values seen
  for a currency over a sequence of Snapshots, oldest first; the number of Snapshots of a
  sequence that contain a currency.
\<close>

fun buy_in :: "string \<Rightarrow> json_value \<Rightarrow> json_value list" where
  "buy_in c (JObj kvs) =
     (case map_of kvs c of
        None \<Rightarrow> []
      | Some d \<Rightarrow> (case subscript d ''buy'' of Inr b \<Rightarrow> [b] | Inl e \<Rightarrow> []))"
| "buy_in c _ = []"

definition seen_buys :: "string \<Rightarrow> json_value list \<Rightarrow> json_value list" where
  "seen_buys c snaps = concat (map (buy_in c) snaps)"

fun contains_currency :: "string \<Rightarrow> json_value \<Rightarrow> bool" where
  "contains_currency c (JObj kvs) = (c \<in> set (map fst kvs))"
| "contains_currency c _ = False"

definition occurrences :: "string \<Rightarrow> json_value list \<Rightarrow> nat" where
  "occurrences c snaps = length (filter (contains_currency c) snaps)"

text \<open>
  The sequence of a currency in a History, empty for a currency that is not tracked.
\<close>

definition current :: "history \<Rightarrow> string \<Rightarrow> json_value list" where
  "current h c = (case map_of h c of None \<Rightarrow> [] | Some ps \<Rightarrow> ps)"

text \<open>A Snapshot with the one currency USD.\<close>

definition usd :: "int \<Rightarrow> json_value" where
  "usd n = JObj [(''USD'', JObj [(''buy'', JInt n)])]"

text \<open>
  A stand-in for numpy in closed examples that pass it the list \<^verbatim>\<open>[100]\<close>: on that list
  \<^verbatim>\<open>np.mean\<close> and \<^verbatim>\<open>np.median\<close> return 100.0 and \<^verbatim>\<open>np.std\<close> returns 0.0. The stand-in returns
  these values on every list, so it is to be used with that list only.
\<close>

definition numpy_on_100 :: numpy where
  "numpy_on_100 =
     \<lparr>np_mean = (\<lambda>xs. Inr (Finite 100)), np_median = (\<lambda>xs. Inr (Finite 100)),
      np_std = (\<lambda>xs. Inr (Finite 0))\<rparr>"

section \<open>Slices and the truncation loop\<close>

lemma slice_last_short: "length xs \<le> n \<Longrightarrow> slice_last n xs = xs"
  by (simp add: slice_last_def)

lemma length_slice_last: "length (slice_last n xs) = min (length xs) n"
  by (simp add: slice_last_def)

lemma slice_last_idem: "slice_last n (slice_last n xs) = slice_last n xs"
  by (simp add: slice_last_short length_slice_last)

lemma slice_last_snoc: "slice_last n (slice_last n xs @ ys) = slice_last n (xs @ ys)"
proof (cases "length xs \<le> n")
  case True
  then show ?thesis by (simp add: slice_last_short)
next
  case False
  then have "length xs + length ys - (length xs - n + n) + (length xs - n) = length xs + length ys - n"
    by arith
  then show ?thesis by (simp add: slice_last_def)
qed

lemma slice_last_snoc_last: "0 < n \<Longrightarrow> slice_last n (xs @ [b]) \<noteq> [] \<and> last (slice_last n (xs @ [b])) = b"
  by (simp add: slice_last_def)

lemma truncate_all_id: "\<forall>(c, ps) \<in> set h. length ps \<le> n \<Longrightarrow> truncate_all n h = h"
  unfolding truncate_all_def
  by (induction h) (auto simp: slice_last_short)

lemma map_of_truncate_all: "map_of (truncate_all n h) c = map_option (slice_last n) (map_of h c)"
  unfolding truncate_all_def by (induction h) auto

lemma truncate_all_bound: "(c, ps) \<in> set (truncate_all n h) \<Longrightarrow> length ps \<le> n"
  unfolding truncate_all_def by (auto simp: length_slice_last)

lemma is_record_buy: "is_record d \<Longrightarrow> \<exists>r. subscript d ''buy'' = Inr r"
  by (cases d) (auto simp del: map_of_eq_Some_iff split: option.splits json_value.splits)

lemma append_buys_ok: "list_all is_record (map snd kvs) \<Longrightarrow> fst (append_buys kvs h) = None"
proof (induction kvs arbitrary: h)
  case Nil
  then show ?case by simp
next
  case (Cons kd kvs)
  obtain k d where kd: "kd = (k, d)" by (cases kd)
  from Cons.prems kd obtain r where "subscript d ''buy'' = Inr r"
    using is_record_buy by auto
  with Cons kd show ?case by (simp split: option.splits)
qed

lemma append_buys_lookup:
  "distinct (map fst kvs) \<Longrightarrow> list_all is_record (map snd kvs) \<Longrightarrow>
   map_of (snd (append_buys kvs h)) c =
     (if c \<in> set (map fst kvs) then Some (current h c @ buy_in c (JObj kvs)) else map_of h c)"
proof (induction kvs arbitrary: h)
  case Nil
  then show ?case by simp
next
  case (Cons kd kvs)
  obtain k d where kd: "kd = (k, d)" by (cases kd)
  from Cons.prems kd obtain r where r: "subscript d ''buy'' = Inr r"
    using is_record_buy by auto
  from Cons.prems kd have dist: "distinct (map fst kvs)" and notin: "k \<notin> set (map fst kvs)"
    and recs: "list_all is_record (map snd kvs)" by auto
  let ?h1 = "AList.update k (current h k @ [r]) h"
  have step: "append_buys (kd # kvs) h = append_buys kvs ?h1"
    using kd r by (simp add: current_def split: option.splits)
  have IH: "map_of (snd (append_buys kvs ?h1)) c =
     (if c \<in> set (map fst kvs) then Some (current ?h1 c @ buy_in c (JObj kvs)) else map_of ?h1 c)"
    using Cons.IH [OF dist recs] .
  show ?case
  proof (cases "c = k")
    case True
    then show ?thesis using step IH notin kd r
      by (simp add: update_conv')
  next
    case False
    then have "current ?h1 c = current h c" "map_of ?h1 c = map_of h c"
      by (simp_all add: current_def update_conv')
    then show ?thesis using step IH False kd by simp
  qed
qed

lemma track_history:
  assumes "is_snapshot s"
  shows "map_of (history_after (track_price_changes s h)) c =
     (if contains_currency c s then Some (slice_last 5 (current h c @ buy_in c s))
      else map_option (slice_last 5) (map_of h c))"
proof -
  from assms obtain kvs where s: "s = JObj kvs" by (cases s) auto
  with assms have d: "distinct (map fst kvs)" and r: "list_all is_record (map snd kvs)" by auto
  obtain p1 where p1: "append_buys kvs h = (None, p1)"
    using append_buys_ok [OF r, of h] by (cases "append_buys kvs h") auto
  have h': "history_after (track_price_changes s h) = truncate_all 5 p1"
    using s p1 by (simp add: track_price_changes_def history_after_def Let_def split: prod.splits)
  have "map_of p1 c = (if c \<in> set (map fst kvs) then Some (current h c @ buy_in c (JObj kvs)) else map_of h c)"
    using append_buys_lookup [OF d r, of h c] p1 by simp
  then show ?thesis using h' s by (simp add: map_of_truncate_all)
qed

lemma track_bound:
  assumes "is_snapshot s" "(c, ps) \<in> set (history_after (track_price_changes s h))"
  shows "length ps \<le> 5"
proof -
  from assms obtain kvs where s: "s = JObj kvs" by (cases s) auto
  with assms have r: "list_all is_record (map snd kvs)" by auto
  obtain p1 where p1: "append_buys kvs h = (None, p1)"
    using append_buys_ok [OF r, of h] by (cases "append_buys kvs h") auto
  have h': "history_after (track_price_changes s h) = truncate_all 5 p1"
    using s p1 by (simp add: track_price_changes_def history_after_def Let_def split: prod.splits)
  then show ?thesis using assms truncate_all_bound by metis
qed


lemma buy_in_present:
  assumes "is_snapshot s" "contains_currency c s"
  shows "\<exists>r. buy_in c s = [r]"
proof -
  from assms obtain kvs where s: "s = JObj kvs" by (cases s) auto
  with assms have "c \<in> fst ` set kvs" by simp
  then have "map_of kvs c \<noteq> None" by (simp add: map_of_eq_None_iff)
  then obtain d where d: "map_of kvs c = Some d" by blast
  then have "(c, d) \<in> set kvs" by (rule map_of_SomeD)
  note d = d this
  with assms s have "is_record d" by (auto simp: list_all_iff)
  then obtain r where "subscript d ''buy'' = Inr r" using is_record_buy by blast
  with d s show ?thesis by simp
qed

lemma buy_in_absent: "\<not> contains_currency c s \<Longrightarrow> buy_in c s = []"
proof (cases s)
  case (JObj kvs)
  assume "\<not> contains_currency c s"
  with JObj have "c \<notin> fst ` set kvs" by simp
  then have "map_of kvs c = None" by (simp add: map_of_eq_None_iff)
  with JObj show ?thesis by simp
qed simp_all

lemma feed_append: "feed (xs @ ys) h = feed ys (feed xs h)"
  by (induction xs arbitrary: h) auto

lemma feed_lookup:
  "\<forall>s \<in> set snaps. is_snapshot s \<Longrightarrow>
   map_of (feed snaps []) c =
     (if seen_buys c snaps = [] then None else Some (slice_last 5 (seen_buys c snaps)))"
proof (induction snaps rule: rev_induct)
  case Nil
  then show ?case by (simp add: seen_buys_def)
next
  case (snoc s snaps)
  let ?h = "feed snaps []"
  have IH: "map_of ?h c =
     (if seen_buys c snaps = [] then None else Some (slice_last 5 (seen_buys c snaps)))"
    using snoc by simp
  have cur: "current ?h c = slice_last 5 (seen_buys c snaps)"
    using IH by (simp add: current_def slice_last_def)
  have s: "is_snapshot s" using snoc.prems by simp
  have seen: "seen_buys c (snaps @ [s]) = seen_buys c snaps @ buy_in c s"
    by (simp add: seen_buys_def)
  have step: "feed (snaps @ [s]) [] = history_after (track_price_changes s ?h)"
    by (simp add: feed_append)
  show ?case
  proof (cases "contains_currency c s")
    case True
    then obtain r where r: "buy_in c s = [r]" using buy_in_present [OF s] by blast
    show ?thesis
      using True r by (simp add: step seen track_history [OF s] cur slice_last_snoc)
  next
    case False
    then have "buy_in c s = []" by (rule buy_in_absent)
    then show ?thesis
      using False IH by (simp add: step seen track_history [OF s] slice_last_idem)
  qed
qed

lemma length_seen_buys:
  "\<forall>s \<in> set snaps. is_snapshot s \<Longrightarrow> length (seen_buys c snaps) = occurrences c snaps"
proof (induction snaps)
  case Nil
  then show ?case by (simp add: seen_buys_def occurrences_def)
next
  case (Cons s snaps)
  then have s: "is_snapshot s" by simp
  have IH: "length (seen_buys c snaps) = occurrences c snaps" using Cons by simp
  show ?case
  proof (cases "contains_currency c s")
    case True
    then obtain r where "buy_in c s = [r]" using buy_in_present [OF s] by blast
    then show ?thesis using True IH by (simp add: seen_buys_def occurrences_def)
  next
    case False
    then have "buy_in c s = []" by (rule buy_in_absent)
    then show ?thesis using False IH by (simp add: seen_buys_def occurrences_def)
  qed
qed

section \<open>The history after a call\<close>

text \<open>
  Claim C2. After a call of \<^verbatim>\<open>track_price_changes\<close> with a Snapshot, every currency of the
  Snapshot has a sequence in the History whose last element is the buy price the Snapshot
  gives for it, and every sequence of the History has at most 5 elements, whatever the
  History was before the call.
\<close>

theorem track_price_changes_last_and_bound:
  assumes "is_snapshot (JObj kvs)"
  shows "(\<forall>(c, d) \<in> set kvs. \<forall>b. subscript d ''buy'' = Inr b \<longrightarrow>
            (\<exists>ps. map_of (history_after (track_price_changes (JObj kvs) h)) c = Some ps
                  \<and> ps \<noteq> [] \<and> last ps = b))
         \<and> (\<forall>(c, ps) \<in> set (history_after (track_price_changes (JObj kvs) h)). length ps \<le> 5)"
proof (intro conjI)
  show "\<forall>(c, d) \<in> set kvs. \<forall>b. subscript d ''buy'' = Inr b \<longrightarrow>
            (\<exists>ps. map_of (history_after (track_price_changes (JObj kvs) h)) c = Some ps
                  \<and> ps \<noteq> [] \<and> last ps = b)"
  proof (clarify)
    fix c d b
    assume cd: "(c, d) \<in> set kvs" and b: "subscript d ''buy'' = Inr b"
    from assms have "distinct (map fst kvs)" by simp
    with cd have "map_of kvs c = Some d" by simp
    with b have bi: "buy_in c (JObj kvs) = [b]" by simp
    from cd have "contains_currency c (JObj kvs)" by force
    then have "map_of (history_after (track_price_changes (JObj kvs) h)) c =
        Some (slice_last 5 (current h c @ [b]))"
      using track_history [OF assms, of h c] bi by simp
    then show "\<exists>ps. map_of (history_after (track_price_changes (JObj kvs) h)) c = Some ps
                  \<and> ps \<noteq> [] \<and> last ps = b"
      using slice_last_snoc_last [of 5 "current h c" b] by simp
  qed
  show "\<forall>(c, ps) \<in> set (history_after (track_price_changes (JObj kvs) h)). length ps \<le> 5"
    using track_bound [OF assms] by blast
qed

theorem track_price_changes_last_and_bound_witness:
  "is_snapshot (JObj [(''USD'', JObj [(''buy'', JInt 100)])])
   \<and> (\<exists>ps. map_of (history_after (track_price_changes
                    (JObj [(''USD'', JObj [(''buy'', JInt 100)])])
                    [(''USD'', [JInt 1, JInt 2, JInt 3, JInt 4, JInt 5])])) ''USD'' = Some ps
           \<and> ps \<noteq> [] \<and> last ps = JInt 100 \<and> length ps \<le> 5)"
proof -
  let ?kvs = "[(''USD'', JObj [(''buy'', JInt 100)])]"
  let ?h = "[(''USD'', [JInt 1, JInt 2, JInt 3, JInt 4, JInt 5])]"
  let ?h' = "history_after (track_price_changes (JObj ?kvs) ?h)"
  have s: "is_snapshot (JObj ?kvs)" by simp
  note t = track_price_changes_last_and_bound [OF s, of ?h]
  have b: "subscript (JObj [(''buy'', JInt 100)]) ''buy'' = Inr (JInt 100)" by simp
  have m: "(''USD'', JObj [(''buy'', JInt 100)]) \<in> set ?kvs" by simp
  from t m b obtain ps where ps: "map_of ?h' ''USD'' = Some ps" "ps \<noteq> []" "last ps = JInt 100"
    by blast
  then have "(''USD'', ps) \<in> set ?h'" by (simp add: map_of_SomeD)
  with t have "length ps \<le> 5" by blast
  with s ps show ?thesis by blast
qed

text \<open>
  Claim C3. When Snapshots are fed to \<^verbatim>\<open>track_price_changes\<close> in order, from the empty
  History, then after the k-th Snapshot the sequence of a currency is the last (up to) 5
  buy values seen for it, oldest first, and its length is the smaller of 5 and the number
  of Snapshots so far that contain the currency. Six Snapshots with the USD buy values 1
  to 6 give the USD sequence 2, 3, 4, 5, 6.
\<close>

theorem feed_keeps_last_five:
  assumes "\<forall>s \<in> set snaps. is_snapshot s"
  shows "(\<forall>k \<le> length snaps.
            map_of (feed (take k snaps) []) c
              = (if occurrences c (take k snaps) = 0 then None
                 else Some (slice_last 5 (seen_buys c (take k snaps))))
          \<and> length (current (feed (take k snaps) []) c) = min (occurrences c (take k snaps)) 5)
       \<and> feed [usd 1, usd 2, usd 3, usd 4, usd 5, usd 6] []
           = [(''USD'', [JInt 2, JInt 3, JInt 4, JInt 5, JInt 6])]"
proof (intro conjI allI impI)
  fix k
  assume "k \<le> length snaps"
  have all: "\<forall>s \<in> set (take k snaps). is_snapshot s"
    using assms by (meson in_set_takeD)
  have len: "length (seen_buys c (take k snaps)) = occurrences c (take k snaps)"
    using length_seen_buys [OF all] .
  have look: "map_of (feed (take k snaps) []) c =
     (if seen_buys c (take k snaps) = [] then None
      else Some (slice_last 5 (seen_buys c (take k snaps))))"
    using feed_lookup [OF all] .
  have emp: "(seen_buys c (take k snaps) = []) = (occurrences c (take k snaps) = 0)"
    using len by (metis length_0_conv)
  show "map_of (feed (take k snaps) []) c
              = (if occurrences c (take k snaps) = 0 then None
                 else Some (slice_last 5 (seen_buys c (take k snaps))))"
    using look emp by simp
  show "length (current (feed (take k snaps) []) c) = min (occurrences c (take k snaps)) 5"
    using look emp len by (simp add: current_def length_slice_last)
next
  show "feed [usd 1, usd 2, usd 3, usd 4, usd 5, usd 6] []
           = [(''USD'', [JInt 2, JInt 3, JInt 4, JInt 5, JInt 6])]"
    by (simp add: usd_def track_price_changes_def history_after_def truncate_all_def
        slice_last_def)
qed

theorem feed_keeps_last_five_witness:
  "list_all is_snapshot [usd 1, usd 2, usd 3, usd 4, usd 5, usd 6]
   \<and> map_of (feed [usd 1, usd 2, usd 3, usd 4, usd 5, usd 6] []) ''USD''
       = Some [JInt 2, JInt 3, JInt 4, JInt 5, JInt 6]
   \<and> length (current (feed [usd 1, usd 2, usd 3, usd 4, usd 5, usd 6] []) ''USD'') = 5"
proof -
  let ?snaps = "[usd 1, usd 2, usd 3, usd 4, usd 5, usd 6]"
  have s: "\<forall>s \<in> set ?snaps. is_snapshot s" by (simp add: usd_def)
  have occ: "occurrences ''USD'' ?snaps = 6" by (simp add: occurrences_def usd_def)
  have seen: "seen_buys ''USD'' ?snaps = [JInt 1, JInt 2, JInt 3, JInt 4, JInt 5, JInt 6]"
    by (simp add: seen_buys_def usd_def)
  have k: "6 \<le> length ?snaps" by simp
  from feed_keeps_last_five [OF s, of "''USD''"] k
  have "map_of (feed (take 6 ?snaps) []) ''USD''
          = (if occurrences ''USD'' (take 6 ?snaps) = 0 then None
             else Some (slice_last 5 (seen_buys ''USD'' (take 6 ?snaps))))
        \<and> length (current (feed (take 6 ?snaps) []) ''USD'')
          = min (occurrences ''USD'' (take 6 ?snaps)) 5"
    by blast
  then have "map_of (feed ?snaps []) ''USD'' = Some (slice_last 5 (seen_buys ''USD'' ?snaps))
        \<and> length (current (feed ?snaps []) ''USD'') = 5"
    using occ by simp
  moreover have "list_all is_snapshot ?snaps" by (simp add: usd_def)
  ultimately show ?thesis using seen by (simp add: slice_last_def)
qed

text \<open>
  Claim C4. A call of \<^verbatim>\<open>track_price_changes\<close> cuts the sequence of every currency of the
  History to its last 5 elements, also of a currency that the Snapshot does not contain:
  such a currency keeps its sequence, cut, and nothing is appended to it. A currency of
  the Snapshot has the buy value appended before the cut.
\<close>

theorem track_price_changes_truncates_every_currency:
  assumes "is_snapshot s"
  shows "(\<not> contains_currency c s \<longrightarrow>
            map_of (history_after (track_price_changes s h)) c
              = map_option (slice_last 5) (map_of h c))
       \<and> (contains_currency c s \<longrightarrow>
            map_of (history_after (track_price_changes s h)) c
              = Some (slice_last 5 (current h c @ buy_in c s)))"
  using track_history [OF assms, of h c] by simp

theorem track_price_changes_truncates_every_currency_witness:
  "is_snapshot (usd 8)
   \<and> \<not> contains_currency ''EUR'' (usd 8)
   \<and> map_of (history_after (track_price_changes (usd 8)
        [(''EUR'', [JInt 1, JInt 2, JInt 3, JInt 4, JInt 5, JInt 6, JInt 7])])) ''EUR''
       = Some [JInt 3, JInt 4, JInt 5, JInt 6, JInt 7]"
proof -
  have s: "is_snapshot (usd 8)" by (simp add: usd_def)
  have n: "\<not> contains_currency ''EUR'' (usd 8)" by (simp add: usd_def)
  from track_price_changes_truncates_every_currency [OF s, of "''EUR''"
         "[(''EUR'', [JInt 1, JInt 2, JInt 3, JInt 4, JInt 5, JInt 6, JInt 7])]"] n
  have "map_of (history_after (track_price_changes (usd 8)
        [(''EUR'', [JInt 1, JInt 2, JInt 3, JInt 4, JInt 5, JInt 6, JInt 7])])) ''EUR''
       = map_option (slice_last 5)
           (map_of [(''EUR'', [JInt 1, JInt 2, JInt 3, JInt 4, JInt 5, JInt 6, JInt 7])] ''EUR'')"
    by blast
  then show ?thesis using s n by (simp add: slice_last_def)
qed



text \<open>
  Claim C10. A call of \<^verbatim>\<open>track_price_changes\<close> with the empty Snapshot, on a History whose
  sequences all have at most 5 elements, leaves the History as it is.
\<close>

theorem track_price_changes_empty_snapshot:
  "\<forall>(c, ps) \<in> set h. length ps \<le> 5 \<Longrightarrow>
   history_after (track_price_changes (JObj []) h) = h"
  by (simp add: track_price_changes_def history_after_def truncate_all_id Let_def
      split: prod.splits)

theorem track_price_changes_empty_snapshot_witness:
  "list_all (\<lambda>(c, ps). length ps \<le> 5) [(''USD'', [JInt 1, JInt 2]), (''EUR'', [JInt 3])]
   \<and> history_after (track_price_changes (JObj [])
        [(''USD'', [JInt 1, JInt 2]), (''EUR'', [JInt 3])])
       = [(''USD'', [JInt 1, JInt 2]), (''EUR'', [JInt 3])]"
proof -
  have h: "\<forall>(c, ps) \<in> set [(''USD'', [JInt 1, JInt 2]), (''EUR'', [JInt 3])]. length ps \<le> 5"
    by simp
  have l: "list_all (\<lambda>(c, ps). length ps \<le> 5)
             [(''USD'', [JInt 1, JInt 2]), (''EUR'', [JInt 3])]"
    by simp
  from l track_price_changes_empty_snapshot [OF h] show ?thesis by (rule conjI)
qed

section \<open>The statistics\<close>

text \<open>
  The three lines \<^verbatim>\<open>calculate_statistics\<close> prints show what numpy returns on the list of
  the buy values, taken in the order of the Snapshot.
\<close>

lemma calculate_statistics_calls_numpy:
  assumes "buy_prices_of (map snd kvs) = Inr bs"
    and "np_mean np bs = Inr m" and "np_median np bs = Inr md" and "np_std np bs = Inr sd"
  shows "calculate_statistics np (JObj kvs)
           = Inr [Mean_Buy_Price m, Median_Buy_Price md, Standard_Deviation sd]"
  using assms by (simp add: calculate_statistics_def)

section \<open>The poll loop\<close>

lemma subscript_error: "subscript d k = Inl e \<Longrightarrow> e = KeyError \<or> e = TypeError"
  by (cases d) (auto split: option.splits)

lemma buy_prices_of_error:
  "\<exists>d \<in> set ds. \<exists>e. subscript d ''buy'' = Inl e \<Longrightarrow>
   \<exists>e. buy_prices_of ds = Inl e \<and> (e = KeyError \<or> e = TypeError)"
proof (induction ds)
  case Nil
  then show ?case by simp
next
  case (Cons d ds)
  show ?case
  proof (cases "subscript d ''buy''")
    case (Inl e)
    then show ?thesis using subscript_error [OF Inl] by simp
  next
    case (Inr b)
    with Cons.prems have "\<exists>d \<in> set ds. \<exists>e. subscript d ''buy'' = Inl e" by auto
    then obtain e where "buy_prices_of ds = Inl e" "e = KeyError \<or> e = TypeError"
      using Cons.IH by blast
    with Inr show ?thesis by simp
  qed
qed

lemma buy_prices_of_KeyError:
  "\<forall>d \<in> set ds. \<exists>fs. d = JObj fs \<Longrightarrow> \<exists>d \<in> set ds. subscript d ''buy'' = Inl KeyError \<Longrightarrow>
   buy_prices_of ds = Inl KeyError"
proof (induction ds)
  case Nil
  then show ?case by simp
next
  case (Cons d ds)
  from Cons.prems(1) obtain fs where d: "d = JObj fs" by auto
  show ?case
  proof (cases "map_of fs ''buy''")
    case None
    with d show ?thesis by simp
  next
    case (Some b)
    with d Cons.prems have "\<exists>d \<in> set ds. subscript d ''buy'' = Inl KeyError" by auto
    moreover from Cons.prems have "\<forall>d \<in> set ds. \<exists>fs. d = JObj fs" by simp
    ultimately have "buy_prices_of ds = Inl KeyError" using Cons.IH by blast
    with d Some show ?thesis by simp
  qed
qed

lemma poll_iteration_frame:
  assumes "poll_iteration np api_url p got st = (evs, r, st1)"
  shows "length st1 = length st \<and> (\<forall>g. g \<noteq> p \<longrightarrow> st1 ! g = st ! g)"
  using assms
  by (auto simp: poll_iteration_def Let_def split: sum.splits if_splits prod.splits)

lemma poll_loop_frame:
  "poll_loop np api_url p world st = (evs, r, st') \<Longrightarrow>
   length st' = length st \<and> (\<forall>g. g \<noteq> p \<longrightarrow> st' ! g = st ! g)"
proof (induction world arbitrary: st evs r st')
  case Nil
  then show ?case by simp
next
  case (Cons got world)
  obtain evs1 r1 st1 where it: "poll_iteration np api_url p got st = (evs1, r1, st1)"
    by (cases "poll_iteration np api_url p got st") auto
  note f1 = poll_iteration_frame [OF it]
  show ?case
  proof (cases r1)
    case (Some e)
    with Cons.prems it have "st' = st1" by simp
    with f1 show ?thesis by simp
  next
    case None
    obtain evs2 r2 st2 where l: "poll_loop np api_url p world st1 = (evs2, r2, st2)"
      by (cases "poll_loop np api_url p world st1") auto
    with Cons.prems it None have "st' = st2" by simp
    with Cons.IH [OF l] f1 show ?thesis by simp
  qed
qed

text \<open>
  Claim C6, at the input where the code departs from it: with two answers of status 500 in
  a row the loop prints the status code and calls \<^verbatim>\<open>requests.get\<close> again at once. No
  \<open>Sleep\<close> lies between the two fetches: \<^verbatim>\<open>time.sleep(10)\<close> is in the branch of status 200
  only.
\<close>

theorem poll_failure_skips_sleep:
  "script np [Inr \<lparr>status_code = 500, json = Inl JSONDecodeError\<rparr>,
             
           Inr \<lparr>status_code = 500, json = Inl JSONDecodeError\<rparr>]
   = ([Get real_time_api_url, Print (Error_fetching_data 500),
       Get real_time_api_url, Print (Error_fetching_data 500)], None, [[], []])"
  by (simp add: script_def poll_api_def new_dict_def poll_iteration_def)

text \<open>The branch of status 200 ends with the sleep.\<close>

lemma poll_success_sleeps:
  "script numpy_on_100 [Inr \<lparr>status_code = 200, json = Inr (usd 100)\<rparr>]
   = ([Get real_time_api_url, Print Dashes, Print (New_data_received (usd 100)), Print Dashes,
       Print (Mean_Buy_Price (Finite 100)), Print (Median_Buy_Price (Finite 100)),
       Print (Standard_Deviation (Finite 0)), Print (Trend ''USD'' [JInt 100]), Sleep 10],
      None, [[], [(''USD'', [JInt 100])]])"
  by (simp add: script_def poll_api_def new_dict_def poll_iteration_def usd_def
      calculate_statistics_def numpy_on_100_def int_too_large_for_float_def
      track_price_changes_def truncate_all_def slice_last_def)

text \<open>
  Claim C7. When the fetch returns a status other than 200, the pass through the loop
  prints the status code and nothing else, computes no statistics, leaves every History
  as it is and raises nothing; the loop goes on with the next fetch, from the same state.
\<close>

theorem poll_non_200_continues:
  assumes "status_code response \<noteq> 200"
  shows "poll_iteration np api_url p (Inr response) st
           = ([Get api_url, Print (Error_fetching_data (status_code response))], None, st)
       \<and> poll_loop np api_url p (Inr response # rest) st
           = (case poll_loop np api_url p rest st of
                (evs, r, st') \<Rightarrow>
                  (Get api_url # Print (Error_fetching_data (status_code response)) # evs, r, st'))"
  using assms by (simp add: poll_iteration_def split: prod.splits)

theorem poll_non_200_continues_witness:
  "status_code \<lparr>status_code = 500, json = Inl JSONDecodeError\<rparr> \<noteq> 200
   \<and> poll_iteration numpy_on_100 real_time_api_url 1
        (Inr \<lparr>status_code = 500, json = Inl JSONDecodeError\<rparr>) [[], [(''USD'', [JInt 1])]]
       = ([Get real_time_api_url, Print (Error_fetching_data 500)], None,
          [[], [(''USD'', [JInt 1])]])
   \<and> poll_loop numpy_on_100 real_time_api_url 1
        [Inr \<lparr>status_code = 500, json = Inl JSONDecodeError\<rparr>,
         Inr \<lparr>status_code = 404, json = Inl JSONDecodeError\<rparr>] [[], [(''USD'', [JInt 1])]]
       = ([Get real_time_api_url, Print (Error_fetching_data 500),
           Get real_time_api_url, Print (Error_fetching_data 404)], None,
          [[], [(''USD'', [JInt 1])]])"
proof -
  have h: "status_code \<lparr>status_code = 500, json = Inl JSONDecodeError\<rparr> \<noteq> 200" by simp
  have n: "poll_loop numpy_on_100 real_time_api_url 1
        [Inr \<lparr>status_code = 404, json = Inl JSONDecodeError\<rparr>] [[], [(''USD'', [JInt 1])]]
       = ([Get real_time_api_url, Print (Error_fetching_data 404)], None,
          [[], [(''USD'', [JInt 1])]])"
    by (simp add: poll_iteration_def)
  show ?thesis
    using h n poll_non_200_continues [OF h, where np = numpy_on_100
        and api_url = real_time_api_url and p = 1 and st = "[[], [(''USD'', [JInt 1])]]"
        and rest = "[Inr \<lparr>status_code = 404, json = Inl JSONDecodeError\<rparr>]"]
    by simp
qed

text \<open>
  Claim C8. A response of status 200 whose body is malformed is not handled. When
  \<^verbatim>\<open>response.json()\<close> raises, the exception leaves the loop at once. When some currency
  record of the parsed body lacks the \<^verbatim>\<open>buy\<close> field, \<^verbatim>\<open>calculate_statistics\<close> raises (a
  \<^verbatim>\<open>KeyError\<close> when every record is a dictionary) and the exception leaves the loop, after
  the three lines that show the data. In both cases nothing more is fetched and the
  Histories are as before.
\<close>

theorem poll_malformed_body_raises:
  assumes "status_code response = 200"
  shows "(json response = Inl e \<longrightarrow>
            poll_loop np api_url p (Inr response # rest) st = ([Get api_url], Some e, st))
       \<and> (json response = Inr (JObj kvs)
            \<and> (\<exists>d \<in> set (map snd kvs). subscript d ''buy'' = Inl KeyError) \<longrightarrow>
            (\<exists>e'. (e' = KeyError \<or> e' = TypeError)
               \<and> ((\<forall>d \<in> set (map snd kvs). \<exists>fs. d = JObj fs) \<longrightarrow> e' = KeyError)
               \<and> calculate_statistics np (JObj kvs) = Inl e'
               \<and> poll_loop np api_url p (Inr response # rest) st
                   = ([Get api_url, Print Dashes, Print (New_data_received (JObj kvs)),
                       Print Dashes], Some e', st)))"
proof (intro conjI impI)
  assume "json response = Inl e"
  with assms show "poll_loop np api_url p (Inr response # rest) st = ([Get api_url], Some e, st)"
    by (simp add: poll_iteration_def)
next
  assume a: "json response = Inr (JObj kvs)
               \<and> (\<exists>d \<in> set (map snd kvs). subscript d ''buy'' = Inl KeyError)"
  then have "\<exists>d \<in> set (map snd kvs). \<exists>e. subscript d ''buy'' = Inl e" by blast
  then obtain e' where e': "buy_prices_of (map snd kvs) = Inl e'" "e' = KeyError \<or> e' = TypeError"
    using buy_prices_of_error by blast
  have k: "(\<forall>d \<in> set (map snd kvs). \<exists>fs. d = JObj fs) \<longrightarrow> e' = KeyError"
    using a e'(1) buy_prices_of_KeyError [of "map snd kvs"] by auto
  have cs: "calculate_statistics np (JObj kvs) = Inl e'"
    using e'(1) by (simp add: calculate_statistics_def)
  have "poll_loop np api_url p (Inr response # rest) st
          = ([Get api_url, Print Dashes, Print (New_data_received (JObj kvs)), Print Dashes],
             Some e', st)"
    using assms a cs by (simp add: poll_iteration_def)
  with e'(2) k cs show "\<exists>e'. (e' = KeyError \<or> e' = TypeError)
               \<and> ((\<forall>d \<in> set (map snd kvs). \<exists>fs. d = JObj fs) \<longrightarrow> e' = KeyError)
               \<and> calculate_statistics np (JObj kvs) = Inl e'
               \<and> poll_loop np api_url p (Inr response # rest) st
                   = ([Get api_url, Print Dashes, Print (New_data_received (JObj kvs)),
                       Print Dashes], Some e', st)" by blast
qed

theorem poll_malformed_body_raises_witness:
  "status_code \<lparr>status_code = 200, json = Inl JSONDecodeError\<rparr> = 200
   \<and> poll_loop numpy_on_100 real_time_api_url 1
        [Inr \<lparr>status_code = 200, json = Inl JSONDecodeError\<rparr>,
         Inr \<lparr>status_code = 200, json = Inr (usd 1)\<rparr>] [[], []]
       = ([Get real_time_api_url], Some JSONDecodeError, [[], []])
   \<and> status_code \<lparr>status_code = 200,
        json = Inr (JObj [(''USD'', JObj [(''buy'', JInt 1)]), (''EUR'', JObj [(''sell'', JInt 2)])])\<rparr>
       = 200
   \<and> calculate_statistics numpy_on_100
        (JObj [(''USD'', JObj [(''buy'', JInt 1)]), (''EUR'', JObj [(''sell'', JInt 2)])])
       = Inl KeyError
   \<and> poll_loop numpy_on_100 real_time_api_url 1
        [Inr \<lparr>status_code = 200,
           json = Inr (JObj [(''USD'', JObj [(''buy'', JInt 1)]),
                             (''EUR'', JObj [(''sell'', JInt 2)])])\<rparr>,
         Inr \<lparr>status_code = 200, json = Inr (usd 1)\<rparr>] [[], []]
       = ([Get real_time_api_url, Print Dashes,
           Print (New_data_received
             (JObj [(''USD'', JObj [(''buy'', JInt 1)]), (''EUR'', JObj [(''sell'', JInt 2)])])),
           Print Dashes], Some KeyError, [[], []])"
proof -
  let ?bad = "JObj [(''USD'', JObj [(''buy'', JInt 1)]), (''EUR'', JObj [(''sell'', JInt 2)])]"
  let ?next = "[Inr \<lparr>status_code = 200, json = Inr (usd 1)\<rparr>]"
  have h1: "status_code \<lparr>status_code = 200, json = Inl JSONDecodeError\<rparr> = 200" by simp
  have h2: "status_code \<lparr>status_code = 200, json = Inr ?bad\<rparr> = 200" by simp
  have objs: "\<forall>d \<in> set (map snd [(''USD'', JObj [(''buy'', JInt 1)]),
                                     (''EUR'', JObj [(''sell'', JInt 2)])]). \<exists>fs. d = JObj fs"
    by simp
  have lacks: "\<exists>d \<in> set (map snd [(''USD'', JObj [(''buy'', JInt 1)]),
                                      (''EUR'', JObj [(''sell'', JInt 2)])]).
                 subscript d ''buy'' = Inl KeyError"
    by simp
  from poll_malformed_body_raises [OF h1, where np = numpy_on_100 and e = JSONDecodeError
         and api_url = real_time_api_url
         and p = 1 and rest = ?next and st = "[[], []]"]
  have a: "poll_loop numpy_on_100 real_time_api_url 1
             (Inr \<lparr>status_code = 200, json = Inl JSONDecodeError\<rparr> # ?next) [[], []]
           = ([Get real_time_api_url], Some JSONDecodeError, [[], []])"
    by simp
  from poll_malformed_body_raises [OF h2, where np = numpy_on_100
         and api_url = real_time_api_url
         and kvs = "[(''USD'', JObj [(''buy'', JInt 1)]), (''EUR'', JObj [(''sell'', JInt 2)])]"
         and p = 1 and rest = ?next and st = "[[], []]"] objs lacks
  have b: "calculate_statistics numpy_on_100 ?bad = Inl KeyError
         \<and> poll_loop numpy_on_100 real_time_api_url 1
             (Inr \<lparr>status_code = 200, json = Inr ?bad\<rparr> # ?next) [[], []]
           = ([Get real_time_api_url, Print Dashes, Print (New_data_received ?bad),
               Print Dashes], Some KeyError, [[], []])"
    by (simp del: poll_loop.simps set_simps list.map)
  from h1 h2 a b show ?thesis by simp
qed

text \<open>
  Claim C9. The poll loop writes only to the dictionary that \<^verbatim>\<open>poll_api\<close> creates. The
  dictionary of the module, the first object of the store, is empty whatever the network
  answers and however long the loop runs, and the store holds these two dictionaries only.
\<close>

theorem module_prices_over_time_untouched:
  "length (snd (snd (script np world))) = 2
   \<and> snd (snd (script np world)) ! module_prices_over_time = []"
proof -
  obtain evs r st' where s: "poll_loop np real_time_api_url 1 world [[], []] = (evs, r, st')"
    by (cases "poll_loop np real_time_api_url 1 world [[], []]") auto
  have sc: "script np world = (evs, r, st')"
    using s by (simp add: script_def poll_api_def new_dict_def)
  from poll_loop_frame [OF s] have "length st' = 2" "st' ! 0 = []" by simp_all
  with sc show ?thesis by (simp add: module_prices_over_time_def new_dict_def)
qed

theorem module_prices_over_time_untouched_witness:
  "length (snd (snd (script numpy_on_100 [Inr \<lparr>status_code = 200, json = Inr (usd 100)\<rparr>]))) = 2
   \<and> snd (snd (script numpy_on_100 [Inr \<lparr>status_code = 200, json = Inr (usd 100)\<rparr>]))
         ! module_prices_over_time = []
   \<and> snd (snd (script numpy_on_100 [Inr \<lparr>status_code = 200, json = Inr (usd 100)\<rparr>]))
       = [[], [(''USD'', [JInt 100])]]"
  using module_prices_over_time_untouched [of numpy_on_100
          "[Inr \<lparr>status_code = 200, json = Inr (usd 100)\<rparr>]"]
    poll_success_sleeps
  by simp

end
